theory Spec2Isabelle
  imports Main "HOL-Library.Word"
begin

unbundle bit_operations_syntax

section \<open>Exceptions\<close>

text \<open>
  The headers throw two kinds of temporaries: \<^verbatim>\<open>std::overflow_error::exception()\<close> in
  \<^verbatim>\<open>Convert.h\<close> and \<^verbatim>\<open>std::invalid_argument::exception()\<close> in \<^verbatim>\<open>SBinaryReader.h\<close>.
  Each throw site gets its own constructor, named after the expression as it is written.
  (In C++ both expressions reach the constructor of the common base class
  \<^verbatim>\<open>std::exception\<close> through the derived class's scope; the model keeps the two throw
  sites apart by name all the same.)
\<close>

text \<open>
  Modelled from the spec: the failure of a read that finds fewer bytes than it needs.
  The bodies of the read operations are in \<^verbatim>\<open>SBinaryReader.cpp\<close>; the spec has every
  short read "reported as a distinct read-error condition (as opposed to the overflow
  condition)". It is the third constructor, \<open>short_read\<close>.
\<close>

datatype exn =
    overflow_error_exception
  | invalid_argument_exception
  | short_read

section \<open>Convert.h\<close>

text \<open>
  \<^verbatim>\<open>size_t\<close> is an unsigned machine word whose width the platform fixes; the width is the
  type parameter \<open>'w\<close> (64 on x64, 32 on x86). \<^verbatim>\<open>int32_t\<close> and \<^verbatim>\<open>uint32_t\<close> are 32-bit
  words; a signed one is read with \<open>sint\<close> (two's complement), an unsigned one with
  \<open>unat\<close>.
\<close>

type_synonym int32_t = "32 word"
type_synonym uint32_t = "32 word"

definition INT32_MAX :: int where
  "INT32_MAX = 2147483647"

definition UINT32_MAX :: int where
  "UINT32_MAX = 4294967295"

text \<open>
  \<^verbatim>\<open>
  static int32_t toInt32(size_t value)
  {
      if (value > INT32_MAX)
          throw std::overflow_error::exception();
      return static_cast<int32_t>(value);
  }
  \<close>
  The comparison is made in \<^verbatim>\<open>size_t\<close>: the usual arithmetic conversions turn the
  \<^verbatim>\<open>int\<close> constant into a \<^verbatim>\<open>size_t\<close>. The cast keeps the low 32 bits.
\<close>

definition toInt32 :: "'w::len word \<Rightarrow> exn + int32_t" where
  "toInt32 val =
     (if val > word_of_int INT32_MAX then Inl overflow_error_exception
      else Inr (ucast val))"

text \<open>
  \<^verbatim>\<open>
  static uint32_t toUInt32(size_t value)
  {
      if (value > UINT32_MAX)
          throw std::overflow_error::exception();
      return static_cast<uint32_t>(value);
  }
  \<close>
\<close>

definition toUInt32 :: "'w::len word \<Rightarrow> exn + uint32_t" where
  "toUInt32 val =
     (if val > word_of_int UINT32_MAX then Inl overflow_error_exception
      else Inr (ucast val))"

section \<open>SBinaryReader.h\<close>

text \<open>
  A \<^verbatim>\<open>std::ifstream\<close> is the bytes it has yet to deliver and its state flags. The
  constructor tests the stream with \<^verbatim>\<open>!stream\<close>, which is \<^verbatim>\<open>stream.fail()\<close>: true when
  \<^verbatim>\<open>failbit\<close> or \<^verbatim>\<open>badbit\<close> is set (as after a failed \<^verbatim>\<open>open\<close>).
\<close>

type_synonym byte = "8 word"

record ifstream =
  failbit :: bool
  badbit :: bool
  eofbit :: bool
  rdbuf :: "byte list"

definition ios_fail :: "ifstream \<Rightarrow> bool" where
  "ios_fail s \<longleftrightarrow> failbit s \<or> badbit s"

text \<open>
  The reader holds one pointer, \<^verbatim>\<open>std::ifstream* stream_\<close>, the field \<open>stream_ptr\<close> here
  (a name cannot end with an underscore); \<open>None\<close> is \<^verbatim>\<open>nullptr\<close>.
  Streams live at addresses; a reference to a stream is its address.
  \<^verbatim>\<open>
  SBinaryReader(std::ifstream& stream)
      : stream_(nullptr)
  {
      if (!stream)
          throw std::invalid_argument::exception();
      stream_ = &stream;
  }
  \<close>
  A constructor that throws leaves no object behind: the result is the exception alone.
\<close>

record SBinaryReader =
  stream_ptr :: "nat option"

definition SBinaryReader_ctor :: "(nat \<Rightarrow> ifstream) \<Rightarrow> nat \<Rightarrow> exn + SBinaryReader" where
  "SBinaryReader_ctor streams stream =
     (let this = \<lparr>stream_ptr = None\<rparr>
      in if ios_fail (streams stream) then Inl invalid_argument_exception
         else Inr (this\<lparr>stream_ptr := Some stream\<rparr>))"

text \<open>
  The reader is open while it holds a stream; the stream its operations read is the one
  \<open>stream_ptr\<close> points to.
\<close>

definition is_open :: "SBinaryReader \<Rightarrow> bool" where
  "is_open r \<longleftrightarrow> stream_ptr r \<noteq> None"

definition reader_stream :: "(nat \<Rightarrow> ifstream) \<Rightarrow> SBinaryReader \<Rightarrow> ifstream option" where
  "reader_stream streams r = map_option streams (stream_ptr r)"

subsection \<open>The read operations\<close>

text \<open>
  Modelled from the spec: the bodies of the read operations, which the header only
  declares. Each acts on the stream of an open reader, at the current position, and
  advances it by the bytes consumed. The spec's table gives the bytes each one consumes
  and its result; all of them fail on a short read, and the stream's position after a
  failed read is left unspecified (a failure returns no stream).

  \<open>read_bytes n\<close> is the stream's "sequential read of N bytes (or failure)".
\<close>

definition read_bytes :: "nat \<Rightarrow> ifstream \<Rightarrow> exn + (byte list \<times> ifstream)" where
  "read_bytes n s =
     (if length (rdbuf s) < n then Inl short_read
      else Inr (take n (rdbuf s), s\<lparr>rdbuf := drop n (rdbuf s)\<rparr>))"

text \<open>
  Modelled from the spec: "Integers: fixed-width, little-endian, two's-complement for
  signed types." \<open>le_word\<close> is the value of a byte sequence read little-endian, the first
  byte the least significant. A signed result is the same word, read with \<open>sint\<close>.
\<close>

fun le_word :: "byte list \<Rightarrow> 'a::len word" where
  "le_word [] = 0"
| "le_word (b # bs) = ucast b OR push_bit 8 (le_word bs)"

definition read_le :: "nat \<Rightarrow> ifstream \<Rightarrow> exn + ('a::len word \<times> ifstream)" where
  "read_le n s =
     (case read_bytes n s of
        Inl e \<Rightarrow> Inl e
      | Inr (bs, s') \<Rightarrow> Inr (le_word bs, s'))"

definition readInt8 :: "ifstream \<Rightarrow> exn + (8 word \<times> ifstream)" where
  "readInt8 = read_le 1"

definition readInt16 :: "ifstream \<Rightarrow> exn + (16 word \<times> ifstream)" where
  "readInt16 = read_le 2"

definition readInt32 :: "ifstream \<Rightarrow> exn + (32 word \<times> ifstream)" where
  "readInt32 = read_le 4"

definition readInt64 :: "ifstream \<Rightarrow> exn + (64 word \<times> ifstream)" where
  "readInt64 = read_le 8"

definition readUInt8 :: "ifstream \<Rightarrow> exn + (8 word \<times> ifstream)" where
  "readUInt8 = read_le 1"

definition readUInt16 :: "ifstream \<Rightarrow> exn + (16 word \<times> ifstream)" where
  "readUInt16 = read_le 2"

definition readUInt32 :: "ifstream \<Rightarrow> exn + (32 word \<times> ifstream)" where
  "readUInt32 = read_le 4"

definition readUInt64 :: "ifstream \<Rightarrow> exn + (64 word \<times> ifstream)" where
  "readUInt64 = read_le 8"

text \<open>
  Modelled from the spec: "Floats: IEEE-754, raw bit reinterpretation". A float is kept
  as its bit pattern, the 4 or 8 raw bytes read little-endian.
\<close>

definition readSingle :: "ifstream \<Rightarrow> exn + (32 word \<times> ifstream)" where
  "readSingle = read_le 4"

definition readDouble :: "ifstream \<Rightarrow> exn + (64 word \<times> ifstream)" where
  "readDouble = read_le 8"

text \<open>
  Modelled from the spec: \<^verbatim>\<open>readChars(count)\<close> is "a text run of exactly count raw bytes
  decoded as characters", with "no encoding conversion beyond raw byte-to-character
  mapping"; \<^verbatim>\<open>readString()\<close> "first reads an unsigned 32-bit length prefix N
  (little-endian), then reads N raw bytes as text".
\<close>

definition byte_to_char :: "byte \<Rightarrow> char" where
  "byte_to_char b = char_of (unat b)"

definition readChars :: "nat \<Rightarrow> ifstream \<Rightarrow> exn + (string \<times> ifstream)" where
  "readChars count s =
     (case read_bytes count s of
        Inl e \<Rightarrow> Inl e
      | Inr (bs, s') \<Rightarrow> Inr (map byte_to_char bs, s'))"

definition readString :: "ifstream \<Rightarrow> exn + (string \<times> ifstream)" where
  "readString s =
     (case readUInt32 s of
        Inl e \<Rightarrow> Inl e
      | Inr (n, s') \<Rightarrow> readChars (unat n) s')"

subsection \<open>The producer's encoding\<close>

text \<open>
  Modelled from the spec: the encoding the round-trip properties read back. A value is
  "written as a little-endian N-byte integer": \<open>le_bytes n w\<close> are the \<open>n\<close> low bytes of
  \<open>w\<close>, least significant first. A string is encoded "as (4-byte little-endian length,
  raw bytes)".
\<close>

fun le_bytes :: "nat \<Rightarrow> 'a::len word \<Rightarrow> byte list" where
  "le_bytes 0 w = []"
| "le_bytes (Suc n) w = ucast w # le_bytes n (drop_bit 8 w)"

definition char_to_byte :: "char \<Rightarrow> byte" where
  "char_to_byte c = word_of_nat (of_char c)"

definition encode_string :: "string \<Rightarrow> byte list" where
  "encode_string s = le_bytes 4 (word_of_nat (length s) :: 32 word) @ map char_to_byte s"

section \<open>PathHelper.h\<close>

text \<open>
  \<^verbatim>\<open>SFolder.h\<close> includes \<^verbatim>\<open>PathHelper.h\<close> and uses two things from it: the function
  \<^verbatim>\<open>PathHelper::combine\<close> and the comparator \<^verbatim>\<open>PathICompareLT\<close>. A
  \<^verbatim>\<open>std::filesystem::path\<close> is modelled by its text, a \<open>string\<close>.
\<close>

type_synonym fs_path = string

text \<open>
  Modelled from the spec: \<^verbatim>\<open>PathHelper::combine\<close>, whose definition is in
  \<^verbatim>\<open>PathHelper.h\<close>. It "appends childName as a new path segment under parentPath using
  the platform path-segment separator" and "must not alter childName's casing or introduce
  separator duplication". The separator is the parameter \<open>sep\<close>. No separator is put in
  front of the first segment of an empty parent path, nor after a parent path that ends
  with one already.
\<close>

definition combine :: "char \<Rightarrow> fs_path \<Rightarrow> fs_path \<Rightarrow> fs_path" where
  "combine sep parentPath childName =
     (if parentPath = [] then childName
      else if last parentPath = sep then parentPath @ childName
      else parentPath @ sep # childName)"

text \<open>
  The segments of a path: the maximal runs of characters between separators, empty runs
  dropped. \<open>cur\<close> is the segment being read.
\<close>

fun segments_from :: "char \<Rightarrow> string \<Rightarrow> fs_path \<Rightarrow> string list" where
  "segments_from sep cur [] = (if cur = [] then [] else [cur])"
| "segments_from sep cur (c # cs) =
     (if c = sep then (if cur = [] then segments_from sep [] cs
                       else cur # segments_from sep [] cs)
      else segments_from sep (cur @ [c]) cs)"

definition segments :: "char \<Rightarrow> fs_path \<Rightarrow> string list" where
  "segments sep p = segments_from sep [] p"

text \<open>
  A path \<open>q\<close> is a strict descendant of a path \<open>p\<close> when the segments of \<open>p\<close> are a
  proper initial part of the segments of \<open>q\<close>.
\<close>

definition strict_descendant :: "char \<Rightarrow> fs_path \<Rightarrow> fs_path \<Rightarrow> bool" where
  "strict_descendant sep q p \<longleftrightarrow>
     length (segments sep p) < length (segments sep q)
     \<and> take (length (segments sep p)) (segments sep q) = segments sep p"

text \<open>
  Modelled from the spec: the comparator \<^verbatim>\<open>PathICompareLT\<close> of \<^verbatim>\<open>PathHelper.h\<close>, a
  "case-insensitive lexicographic" comparison of two names. \<open>to_lower\<close> is the character
  code with the letters \<^verbatim>\<open>A\<close> to \<^verbatim>\<open>Z\<close> moved to \<^verbatim>\<open>a\<close> to \<^verbatim>\<open>z\<close>; \<open>lex_less\<close>
  compares two code sequences as \<^verbatim>\<open>std::lexicographical_compare\<close> does.
\<close>

definition to_lower :: "char \<Rightarrow> nat" where
  "to_lower c = (let n = of_char c in if 65 \<le> n \<and> n \<le> 90 then n + 32 else n)"

fun lex_less :: "nat list \<Rightarrow> nat list \<Rightarrow> bool" where
  "lex_less [] [] = False"
| "lex_less [] (y # ys) = True"
| "lex_less (x # xs) [] = False"
| "lex_less (x # xs) (y # ys) = (if x < y then True else if y < x then False else lex_less xs ys)"

definition PathICompareLT :: "fs_path \<Rightarrow> fs_path \<Rightarrow> bool" where
  "PathICompareLT lhs rhs = lex_less (map to_lower lhs) (map to_lower rhs)"

text \<open>Two names are equal up to letter case when they fold to the same codes.\<close>

definition same_icase :: "fs_path \<Rightarrow> fs_path \<Rightarrow> bool" where
  "same_icase a b \<longleftrightarrow> map to_lower a = map to_lower b"

section \<open>The child maps\<close>

text \<open>
  \<^verbatim>\<open>std::map<std::filesystem::path, V, PathICompareLT>\<close>: the entries in iteration order,
  which is increasing order of the keys under the comparator. Two keys are the same key
  for the map when neither is less than the other.

  \<open>map_find\<close> is \<^verbatim>\<open>find\<close>: it walks to the first entry whose key is not less than
  \<open>k\<close> and returns it when \<open>k\<close> is not less than that key either.
\<close>

fun map_find :: "fs_path \<Rightarrow> (fs_path \<times> 'v) list \<Rightarrow> 'v option" where
  "map_find k [] = None"
| "map_find k ((k', v') # m) =
     (if PathICompareLT k' k then map_find k m
      else if PathICompareLT k k' then None
      else Some v')"

text \<open>
  \<open>map_insert\<close> is \<^verbatim>\<open>insert\<close> (and \<^verbatim>\<open>emplace\<close>, \<^verbatim>\<open>try_emplace\<close>): the entry is added
  at its place in the order unless the map holds the key already, in which case the map
  is left as it is.
\<close>

fun map_insert :: "fs_path \<Rightarrow> 'v \<Rightarrow> (fs_path \<times> 'v) list \<Rightarrow> (fs_path \<times> 'v) list" where
  "map_insert k v [] = [(k, v)]"
| "map_insert k v ((k', v') # m) =
     (if PathICompareLT k' k then (k', v') # map_insert k v m
      else if PathICompareLT k k' then (k, v) # (k', v') # m
      else (k', v') # m)"

text \<open>
  \<open>map_assign\<close> is \<^verbatim>\<open>insert_or_assign\<close> (and \<^verbatim>\<open>m[k] = v\<close>): as \<open>map_insert\<close>, but
  the value of an entry found under the key is replaced. The entry keeps the key it was
  first stored under.
\<close>

fun map_assign :: "fs_path \<Rightarrow> 'v \<Rightarrow> (fs_path \<times> 'v) list \<Rightarrow> (fs_path \<times> 'v) list" where
  "map_assign k v [] = [(k, v)]"
| "map_assign k v ((k', v') # m) =
     (if PathICompareLT k' k then (k', v') # map_assign k v m
      else if PathICompareLT k k' then (k, v) # (k', v') # m
      else (k', v) # m)"

text \<open>
  The invariant of the container: the keys are strictly increasing, so no two entries
  have keys that are the same for the map.
\<close>

definition map_ordered :: "(fs_path \<times> 'v) list \<Rightarrow> bool" where
  "map_ordered m \<longleftrightarrow> sorted_wrt PathICompareLT (map fst m)"

section \<open>SFolder.h\<close>

text \<open>
  A \<^verbatim>\<open>std::shared_ptr\<close> is an address or \<^verbatim>\<open>nullptr\<close> (\<open>None\<close>). The two child
  containers are \<^verbatim>\<open>std::map\<close>s ordered by \<^verbatim>\<open>PathICompareLT\<close>; their entries are kept in
  iteration order.
  \<^verbatim>\<open>
  std::filesystem::path path;
  std::filesystem::path name;
  std::shared_ptr<SFolder> parentFolder;
  std::map<std::filesystem::path, std::shared_ptr<SFile>, PathICompareLT> files;
  std::map<std::filesystem::path, std::shared_ptr<SFolder>, PathICompareLT> subfolders;
  \<close>
\<close>

type_synonym addr = nat

record SFolder =
  path :: fs_path
  name :: fs_path
  parentFolder :: "addr option"
  files :: "(fs_path \<times> addr) list"
  subfolders :: "(fs_path \<times> addr) list"

text \<open>
  \<^verbatim>\<open>
  SFolder(const std::filesystem::path& name, const std::shared_ptr<SFolder>& parentFolder = nullptr)
      : name(name), parentFolder(parentFolder)
  {
      if (!parentFolder)
          path = name;
      else
          path = PathHelper::combine(parentFolder->path, name);
  }
  \<close>
  \<open>mem\<close> gives the folder object an address points to; \<open>join\<close> stands for
  \<^verbatim>\<open>PathHelper::combine\<close>. The constructor has no \<^verbatim>\<open>throw\<close> and no other exit: it
  is a total function to a folder. The two maps are default-constructed, hence empty.
\<close>

definition SFolder_ctor ::
  "(fs_path \<Rightarrow> fs_path \<Rightarrow> fs_path) \<Rightarrow> (addr \<Rightarrow> SFolder) \<Rightarrow> fs_path \<Rightarrow> addr option \<Rightarrow> SFolder"
where
  "SFolder_ctor join mem nm parent =
     (let this = \<lparr>path = [], name = nm, parentFolder = parent, files = [], subfolders = []\<rparr>
      in case parent of
           None \<Rightarrow> this\<lparr>path := nm\<rparr>
         | Some p \<Rightarrow> this\<lparr>path := join (path (mem p)) nm\<rparr>)"

text \<open>
  After construction a folder changes only through its two public maps, into which the
  code that builds the tree puts the children:
  \<^verbatim>\<open>folder->subfolders.insert({ name, child })\<close> and likewise for \<^verbatim>\<open>files\<close>.
\<close>

definition subfolders_insert :: "fs_path \<Rightarrow> addr \<Rightarrow> SFolder \<Rightarrow> SFolder" where
  "subfolders_insert k child f = f\<lparr>subfolders := map_insert k child (subfolders f)\<rparr>"

definition files_insert :: "fs_path \<Rightarrow> addr \<Rightarrow> SFolder \<Rightarrow> SFolder" where
  "files_insert k child f = f\<lparr>files := map_insert k child (files f)\<rparr>"

text \<open>A memory in which every address holds an empty, nameless folder.\<close>

definition no_folders :: "addr \<Rightarrow> SFolder" where
  "no_folders = (\<lambda>_. \<lparr>path = [], name = [], parentFolder = None, files = [], subfolders = []\<rparr>)"

section \<open>SFile\<close>

text \<open>
  Modelled from the spec: the class \<^verbatim>\<open>SFile\<close>, which \<^verbatim>\<open>SFolder.h\<close> only declares
  (\<^verbatim>\<open>class SFile;\<close>). The spec gives a file "name, path, parent reference" and a path
  "computed by joining ancestor names", as for a folder.
\<close>

record SFile =
  file_path :: fs_path
  file_name :: fs_path
  file_parentFolder :: "addr option"

definition SFile_ctor ::
  "(fs_path \<Rightarrow> fs_path \<Rightarrow> fs_path) \<Rightarrow> (addr \<Rightarrow> SFolder) \<Rightarrow> fs_path \<Rightarrow> addr option \<Rightarrow> SFile"
where
  "SFile_ctor join mem nm parent =
     (let this = \<lparr>file_path = [], file_name = nm, file_parentFolder = parent\<rparr>
      in case parent of
           None \<Rightarrow> this\<lparr>file_path := nm\<rparr>
         | Some p \<Rightarrow> this\<lparr>file_path := join (path (mem p)) nm\<rparr>)"

section \<open>Shared ownership\<close>

text \<open>
  Every handle in \<^verbatim>\<open>SFolder.h\<close> is a \<^verbatim>\<open>std::shared_ptr\<close>: the parent handle
  \<^verbatim>\<open>parentFolder\<close> and the values of the two maps alike; the header has no
  \<^verbatim>\<open>std::weak_ptr\<close>. A \<^verbatim>\<open>shared_ptr\<close> owns: each copy counts in the use count of the
  object it points to, and the object is destroyed when the count falls to zero. The
  heap keeps the folder and file objects and their use counts; an address at or beyond
  \<open>heap_end\<close>, or one whose count is 0, holds no object.
\<close>

datatype handle = FolderPtr addr | FilePtr addr

record heap =
  folder_at :: "addr \<Rightarrow> SFolder"
  folder_use_count :: "addr \<Rightarrow> nat"
  file_at :: "addr \<Rightarrow> SFile"
  file_use_count :: "addr \<Rightarrow> nat"
  heap_end :: addr

text \<open>Copying a handle adds one to the use count of its object.\<close>

fun retain :: "heap \<Rightarrow> handle \<Rightarrow> heap" where
  "retain h (FolderPtr a) = h\<lparr>folder_use_count := (folder_use_count h)(a := Suc (folder_use_count h a))\<rparr>"
| "retain h (FilePtr a) = h\<lparr>file_use_count := (file_use_count h)(a := Suc (file_use_count h a))\<rparr>"

text \<open>
  The handles a folder holds, in the order its destructor releases them: the members are
  destroyed in the reverse of their declaration, \<^verbatim>\<open>subfolders\<close>, \<^verbatim>\<open>files\<close>, then
  \<^verbatim>\<open>parentFolder\<close>.

  Modelled from the spec: a file's "parent reference", taken to be a handle of the same
  type as \<^verbatim>\<open>SFolder::parentFolder\<close>.
\<close>

definition folder_members :: "SFolder \<Rightarrow> handle list" where
  "folder_members f =
     map (\<lambda>e. FolderPtr (snd e)) (subfolders f) @ map (\<lambda>e. FilePtr (snd e)) (files f)
     @ (case parentFolder f of None \<Rightarrow> [] | Some p \<Rightarrow> [FolderPtr p])"

definition file_members :: "SFile \<Rightarrow> handle list" where
  "file_members f = (case file_parentFolder f of None \<Rightarrow> [] | Some p \<Rightarrow> [FolderPtr p])"

definition total_use_count :: "heap \<Rightarrow> nat" where
  "total_use_count h =
     sum (folder_use_count h) {..<heap_end h} + sum (file_use_count h) {..<heap_end h}"

text \<open>Lowering one use count lowers the total; this is what ends the cascade below.\<close>

lemma sum_fun_upd_less:
  fixes f :: "nat \<Rightarrow> nat"
  assumes "a < n" and "v < f a"
  shows "sum (f(a := v)) {..<n} < sum f {..<n}"
proof -
  have "sum (f(a := v)) ({..<n} - {a}) = sum f ({..<n} - {a})"
    by (rule sum.cong) simp_all
  moreover have "sum (f(a := v)) {..<n} = (f(a := v)) a + sum (f(a := v)) ({..<n} - {a})"
    using assms(1) by (intro sum.remove) simp_all
  moreover have "sum f {..<n} = f a + sum f ({..<n} - {a})"
    using assms(1) by (intro sum.remove) simp_all
  moreover have "(f(a := v)) a = v"
    by simp
  ultimately show ?thesis
    using assms(2) by linarith
qed

lemma total_use_count_folder_less:
  assumes "a < heap_end h" and "v < folder_use_count h a"
  shows "total_use_count (h\<lparr>folder_use_count := (folder_use_count h)(a := v)\<rparr>) < total_use_count h"
  using sum_fun_upd_less [where f = "folder_use_count h" and a = a and v = v and n = "heap_end h"] assms
  by (simp add: total_use_count_def del: fun_upd_apply)

lemma total_use_count_file_less:
  assumes "a < heap_end h" and "v < file_use_count h a"
  shows "total_use_count (h\<lparr>file_use_count := (file_use_count h)(a := v)\<rparr>) < total_use_count h"
  using sum_fun_upd_less [where f = "file_use_count h" and a = a and v = v and n = "heap_end h"] assms
  by (simp add: total_use_count_def del: fun_upd_apply)

text \<open>
  \<open>release h hs\<close> destroys the handles \<open>hs\<close>, first to last. Destroying a handle takes
  one from the use count of its object. When that was the last owner the object is
  destroyed too, and with it the handles it holds, before the rest of \<open>hs\<close>: this is the
  cascade of destructors. (A handle to an address that holds no object releases
  nothing; no live \<^verbatim>\<open>shared_ptr\<close> is such a handle.)
\<close>

function release :: "heap \<Rightarrow> handle list \<Rightarrow> heap" where
  "release h [] = h"
| "release h (FolderPtr a # rest) =
     (if heap_end h \<le> a \<or> folder_use_count h a = 0 then release h rest
      else if folder_use_count h a = 1
      then release (h\<lparr>folder_use_count := (folder_use_count h)(a := 0)\<rparr>)
             (folder_members (folder_at h a) @ rest)
      else release (h\<lparr>folder_use_count := (folder_use_count h)(a := folder_use_count h a - 1)\<rparr>)
             rest)"
| "release h (FilePtr a # rest) =
     (if heap_end h \<le> a \<or> file_use_count h a = 0 then release h rest
      else if file_use_count h a = 1
      then release (h\<lparr>file_use_count := (file_use_count h)(a := 0)\<rparr>)
             (file_members (file_at h a) @ rest)
      else release (h\<lparr>file_use_count := (file_use_count h)(a := file_use_count h a - 1)\<rparr>)
             rest)"
  by pat_completeness auto
termination
  by (relation "measures [\<lambda>(h, hs). total_use_count h, \<lambda>(h, hs). length hs]")
    (auto simp: total_use_count_folder_less total_use_count_file_less)

text \<open>
  \<^verbatim>\<open>std::make_shared<SFolder>(name, parentFolder)\<close>: the constructor runs on a new object,
  whose member initialiser \<^verbatim>\<open>parentFolder(parentFolder)\<close> copies the parent handle; the
  caller gets the one handle to the new object.
\<close>

definition make_shared_SFolder ::
  "(fs_path \<Rightarrow> fs_path \<Rightarrow> fs_path) \<Rightarrow> heap \<Rightarrow> fs_path \<Rightarrow> addr option \<Rightarrow> heap \<times> addr"
where
  "make_shared_SFolder join h nm parent =
     (let a = heap_end h;
          this = SFolder_ctor join (folder_at h) nm parent;
          h1 = (case parent of None \<Rightarrow> h | Some p \<Rightarrow> retain h (FolderPtr p))
      in (h1\<lparr>folder_at := (folder_at h1)(a := this),
              folder_use_count := (folder_use_count h1)(a := 1),
              heap_end := Suc a\<rparr>, a))"

text \<open>
  \<^verbatim>\<open>folder->subfolders.insert({ name, child })\<close> on the heap: when the map takes the
  entry, the entry holds a copy of the child's handle.
\<close>

definition add_subfolder :: "heap \<Rightarrow> addr \<Rightarrow> fs_path \<Rightarrow> addr \<Rightarrow> heap" where
  "add_subfolder h folder k child =
     (case map_find k (subfolders (folder_at h folder)) of
        Some _ \<Rightarrow> h
      | None \<Rightarrow>
          (let h1 = retain h (FolderPtr child)
           in h1\<lparr>folder_at := (folder_at h1)(folder := subfolders_insert k child (folder_at h1 folder))\<rparr>))"

definition empty_heap :: heap where
  "empty_heap =
     \<lparr>folder_at = no_folders, folder_use_count = (\<lambda>_. 0),
      file_at = (\<lambda>_. \<lparr>file_path = [], file_name = [], file_parentFolder = None\<rparr>),
      file_use_count = (\<lambda>_. 0), heap_end = 0\<rparr>"

text \<open>Folder \<open>a\<close> holds a handle to folder \<open>b\<close>.\<close>

definition holds :: "heap \<Rightarrow> addr \<Rightarrow> addr \<Rightarrow> bool" where
  "holds h a b \<longleftrightarrow> FolderPtr b \<in> set (folder_members (folder_at h a))"

text \<open>
  The tree of the example, built as the reading code would: the root \<^verbatim>\<open>pkg\<close>, the folder
  \<^verbatim>\<open>bin\<close> constructed under it and put into its \<^verbatim>\<open>subfolders\<close>. Then the builder's
  two local handles go away, the root's last.
\<close>

definition pkg_bin_dropped :: heap where
  "pkg_bin_dropped =
     (let (h1, pkg) = make_shared_SFolder (combine CHR ''/'') empty_heap ''pkg'' None;
          (h2, bin) = make_shared_SFolder (combine CHR ''/'') h1 ''bin'' (Some pkg);
          h3 = add_subfolder h2 pkg ''bin'' bin;
          h4 = release h3 [FolderPtr bin]
      in release h4 [FolderPtr pkg])"

section \<open>Building the tree\<close>

text \<open>
  Modelled from the spec: \<^verbatim>\<open>std::make_shared<SFile>(name, parentFolder)\<close>, after the
  constructor of \<^verbatim>\<open>SFile\<close> modelled above; it copies the parent handle as the
  constructor of \<^verbatim>\<open>SFolder\<close> does.
\<close>

definition make_shared_SFile ::
  "(fs_path \<Rightarrow> fs_path \<Rightarrow> fs_path) \<Rightarrow> heap \<Rightarrow> fs_path \<Rightarrow> addr option \<Rightarrow> heap \<times> addr"
where
  "make_shared_SFile join h nm parent =
     (let a = heap_end h;
          this = SFile_ctor join (folder_at h) nm parent;
          h1 = (case parent of None \<Rightarrow> h | Some p \<Rightarrow> retain h (FolderPtr p))
      in (h1\<lparr>file_at := (file_at h1)(a := this),
              file_use_count := (file_use_count h1)(a := 1),
              heap_end := Suc a\<rparr>, a))"

text \<open>\<^verbatim>\<open>folder->files.insert({ name, child })\<close> on the heap.\<close>

definition add_file :: "heap \<Rightarrow> addr \<Rightarrow> fs_path \<Rightarrow> addr \<Rightarrow> heap" where
  "add_file h folder k child =
     (case map_find k (files (folder_at h folder)) of
        Some _ \<Rightarrow> h
      | None \<Rightarrow>
          (let h1 = retain h (FilePtr child)
           in h1\<lparr>folder_at := (folder_at h1)(folder := files_insert k child (folder_at h1 folder))\<rparr>))"

text \<open>
  What the code that builds and uses the tree can do to it. \<^verbatim>\<open>SFolder\<close> has no member
  function besides its constructor, and nothing in the sources assigns to a member of a
  constructed node: a node is made, put into a map of a folder, and its handles are
  copied and dropped. A program is a sequence of such steps.
\<close>

datatype tree_op =
    MakeFolder fs_path "addr option"
  | MakeFile fs_path "addr option"
  | AddSubfolder addr fs_path addr
  | AddFile addr fs_path addr
  | CopyHandle handle
  | DropHandle handle

fun apply_op :: "(fs_path \<Rightarrow> fs_path \<Rightarrow> fs_path) \<Rightarrow> heap \<Rightarrow> tree_op \<Rightarrow> heap" where
  "apply_op join h (MakeFolder nm parent) = fst (make_shared_SFolder join h nm parent)"
| "apply_op join h (MakeFile nm parent) = fst (make_shared_SFile join h nm parent)"
| "apply_op join h (AddSubfolder folder k child) = add_subfolder h folder k child"
| "apply_op join h (AddFile folder k child) = add_file h folder k child"
| "apply_op join h (CopyHandle x) = retain h x"
| "apply_op join h (DropHandle x) = release h [x]"

fun run_ops :: "(fs_path \<Rightarrow> fs_path \<Rightarrow> fs_path) \<Rightarrow> heap \<Rightarrow> tree_op list \<Rightarrow> heap" where
  "run_ops join h [] = h"
| "run_ops join h (x # xs) = run_ops join (apply_op join h x) xs"

text \<open>
  A step is well formed when every handle it is given points to an object made before:
  a handle in a program is \<^verbatim>\<open>nullptr\<close> or the result of an earlier \<^verbatim>\<open>make_shared\<close>.
\<close>

fun handle_ok :: "heap \<Rightarrow> handle \<Rightarrow> bool" where
  "handle_ok h (FolderPtr a) = (a < heap_end h)"
| "handle_ok h (FilePtr a) = (a < heap_end h)"

fun op_ok :: "heap \<Rightarrow> tree_op \<Rightarrow> bool" where
  "op_ok h (MakeFolder nm parent) = (case parent of None \<Rightarrow> True | Some p \<Rightarrow> p < heap_end h)"
| "op_ok h (MakeFile nm parent) = (case parent of None \<Rightarrow> True | Some p \<Rightarrow> p < heap_end h)"
| "op_ok h (AddSubfolder folder k child) = (folder < heap_end h \<and> child < heap_end h)"
| "op_ok h (AddFile folder k child) = (folder < heap_end h \<and> child < heap_end h)"
| "op_ok h (CopyHandle x) = handle_ok h x"
| "op_ok h (DropHandle x) = handle_ok h x"

fun ops_ok :: "(fs_path \<Rightarrow> fs_path \<Rightarrow> fs_path) \<Rightarrow> heap \<Rightarrow> tree_op list \<Rightarrow> bool" where
  "ops_ok join h [] = True"
| "ops_ok join h (x # xs) = (op_ok h x \<and> ops_ok join (apply_op join h x) xs)"

text \<open>
  The invariant of a heap built this way: every node that has a parent handle has the
  path the constructor gave it, the join of the parent's path and its own name, and the
  parent was made before.
\<close>

definition paths_ok :: "char \<Rightarrow> heap \<Rightarrow> bool" where
  "paths_ok sep h \<longleftrightarrow>
     (\<forall>c p. parentFolder (folder_at h c) = Some p \<longrightarrow>
        p < heap_end h
        \<and> path (folder_at h c) = combine sep (path (folder_at h p)) (name (folder_at h c)))
     \<and> (\<forall>c p. file_parentFolder (file_at h c) = Some p \<longrightarrow>
        p < heap_end h
        \<and> file_path (file_at h c) = combine sep (path (folder_at h p)) (file_name (file_at h c)))"

text \<open>
  Two programs on the empty heap. The first makes \<^verbatim>\<open>pkg\<close>, makes \<^verbatim>\<open>bin\<close> with no parent
  and stores it in the \<^verbatim>\<open>subfolders\<close> of \<^verbatim>\<open>pkg\<close>. The second makes \<^verbatim>\<open>pkg\<close>, makes a
  folder with the empty name under it and stores that one.
\<close>

definition stray_child_ops :: "tree_op list" where
  "stray_child_ops = [MakeFolder ''pkg'' None, MakeFolder ''bin'' None, AddSubfolder 0 ''bin'' 1]"

definition nameless_child_ops :: "tree_op list" where
  "nameless_child_ops = [MakeFolder ''pkg'' None, MakeFolder [] (Some 0), AddSubfolder 0 [] 1]"

text \<open>The tree of the example: \<^verbatim>\<open>pkg\<close>, \<^verbatim>\<open>bin\<close> under it, \<^verbatim>\<open>a.exe\<close> under that.\<close>

definition pkg_tree_ops :: "tree_op list" where
  "pkg_tree_ops =
     [MakeFolder ''pkg'' None, MakeFolder ''bin'' (Some 0), AddSubfolder 0 ''bin'' 1,
      MakeFile ''a.exe'' (Some 1), AddFile 1 ''a.exe'' 2]"

definition stray_child_heap :: heap where
  "stray_child_heap = run_ops (combine CHR ''/'') empty_heap stray_child_ops"

definition nameless_child_heap :: heap where
  "nameless_child_heap = run_ops (combine CHR ''/'') empty_heap nameless_child_ops"

section \<open>Example data\<close>

text \<open>A stream in good state over the given bytes.\<close>

definition good_stream :: "byte list \<Rightarrow> ifstream" where
  "good_stream bs = \<lparr>failbit = False, badbit = False, eofbit = False, rdbuf = bs\<rparr>"

text \<open>
  Two streams: at address 0 an open file with two bytes, at every other address a stream
  whose \<^verbatim>\<open>open\<close> failed.
\<close>

definition two_streams :: "nat \<Rightarrow> ifstream" where
  "two_streams a =
     (if a = 0 then \<lparr>failbit = False, badbit = False, eofbit = False, rdbuf = [1, 2]\<rparr>
      else \<lparr>failbit = True, badbit = False, eofbit = False, rdbuf = []\<rparr>)"

text \<open>A child map with the two entries \<^verbatim>\<open>bin\<close> and \<^verbatim>\<open>ext\<close>.\<close>

definition two_children :: "(fs_path \<times> addr) list" where
  "two_children = [(''bin'', 1), (''ext'', 2)]"

section \<open>Properties of the conversions\<close>

lemma pow32_le:
  assumes "32 \<le> LENGTH('w::len)"
  shows "(4294967296::int) \<le> 2 ^ LENGTH('w)"
proof -
  have "(2::int) ^ 32 \<le> 2 ^ LENGTH('w)"
    using assms by (rule power_increasing) simp
  then show ?thesis by simp
qed

lemma uint_INT32_MAX:
  assumes "32 \<le> LENGTH('w::len)"
  shows "uint (word_of_int INT32_MAX :: 'w word) = INT32_MAX"
proof -
  have "INT32_MAX < 2 ^ LENGTH('w)"
    using pow32_le [OF assms] by (simp add: INT32_MAX_def)
  moreover have "0 \<le> INT32_MAX"
    by (simp add: INT32_MAX_def)
  ultimately show ?thesis
    by (simp only: uint_word_of_int_eq take_bit_int_eq_self)
qed

lemma uint_UINT32_MAX:
  assumes "32 \<le> LENGTH('w::len)"
  shows "uint (word_of_int UINT32_MAX :: 'w word) = UINT32_MAX"
proof -
  have "UINT32_MAX < 2 ^ LENGTH('w)"
    using pow32_le [OF assms] by (simp add: UINT32_MAX_def)
  moreover have "0 \<le> UINT32_MAX"
    by (simp add: UINT32_MAX_def)
  ultimately show ?thesis
    by (simp only: uint_word_of_int_eq take_bit_int_eq_self)
qed

text \<open>A value that fits is unchanged by the narrowing cast, read signed or unsigned.\<close>

lemma sint_ucast32:
  fixes v :: "'w::len word"
  assumes "uint v \<le> INT32_MAX"
  shows "sint (ucast v :: 32 word) = uint v"
proof -
  have "uint v < 2 ^ 31"
    using assms by (simp add: INT32_MAX_def)
  moreover have "- (2 ^ 31) \<le> uint v"
    by (rule order_trans [of _ 0]) simp_all
  ultimately have "signed_take_bit 31 (uint v) = uint v"
    by (rule signed_take_bit_int_eq_self [rotated])
  then show ?thesis
    by (simp add: signed_ucast_eq)
qed

lemma uint_ucast32:
  fixes v :: "'w::len word"
  assumes "uint v \<le> UINT32_MAX"
  shows "uint (ucast v :: 32 word) = uint v"
proof -
  have "uint v < 2 ^ 32"
    using assms by (simp add: UINT32_MAX_def)
  then show ?thesis
    by (simp add: unsigned_ucast_eq take_bit_int_eq_self)
qed

text \<open>
  Claim C1. On a platform whose \<^verbatim>\<open>size_t\<close> has at least 32 bits, for every \<^verbatim>\<open>size_t\<close>
  value \<open>v\<close>: \<open>toInt32 v\<close> returns a value that reads (signed) as the number \<open>v\<close>
  when \<open>v \<le> INT32_MAX\<close> and throws the overflow exception when \<open>v > INT32_MAX\<close>;
  \<open>toUInt32 v\<close> returns a value that reads (unsigned) as \<open>v\<close> when
  \<open>v \<le> UINT32_MAX\<close> and throws the overflow exception when \<open>v > UINT32_MAX\<close>.
  No input is truncated or wrapped.
\<close>

theorem convert_checked:
  fixes v :: "'w::len word"
  assumes "32 \<le> LENGTH('w)"
  shows "(uint v \<le> INT32_MAX \<longrightarrow> (\<exists>r. toInt32 v = Inr r \<and> sint r = uint v))
       \<and> (uint v > INT32_MAX \<longrightarrow> toInt32 v = Inl overflow_error_exception)
       \<and> (uint v \<le> UINT32_MAX \<longrightarrow> (\<exists>r. toUInt32 v = Inr r \<and> uint r = uint v))
       \<and> (uint v > UINT32_MAX \<longrightarrow> toUInt32 v = Inl overflow_error_exception)"
proof -
  have a: "v > word_of_int INT32_MAX \<longleftrightarrow> uint v > INT32_MAX"
    by (simp only: word_less_def uint_INT32_MAX [OF assms])
  have b: "v > word_of_int UINT32_MAX \<longleftrightarrow> uint v > UINT32_MAX"
    by (simp only: word_less_def uint_UINT32_MAX [OF assms])
  have c: "uint v \<le> INT32_MAX \<Longrightarrow> sint (ucast v :: 32 word) = uint v"
    by (rule sint_ucast32)
  have d: "uint v \<le> UINT32_MAX \<Longrightarrow> uint (ucast v :: 32 word) = uint v"
    by (rule uint_ucast32)
  show ?thesis
    unfolding toInt32_def toUInt32_def a b
    using c d by (simp add: not_less)
qed

text \<open>The boundary values on a 64-bit platform.\<close>

theorem convert_checked_witness:
  "(32::nat) \<le> LENGTH(64)
   \<and> (\<exists>r. toInt32 (2147483647 :: 64 word) = Inr r \<and> sint r = 2147483647)
   \<and> toInt32 (2147483648 :: 64 word) = Inl overflow_error_exception
   \<and> (\<exists>r. toUInt32 (4294967295 :: 64 word) = Inr r \<and> uint r = 4294967295)
   \<and> toUInt32 (4294967296 :: 64 word) = Inl overflow_error_exception"
  using convert_checked [of "2147483647 :: 64 word"] convert_checked [of "2147483648 :: 64 word"]
    convert_checked [of "4294967295 :: 64 word"] convert_checked [of "4294967296 :: 64 word"]
  by (simp add: INT32_MAX_def UINT32_MAX_def)

section \<open>Properties of the reader\<close>

subsection \<open>Construction\<close>

text \<open>
  Claim C9. Constructing a reader over a stream that is not valid (\<^verbatim>\<open>!stream\<close> holds)
  throws, and the result is the exception alone: no reader exists. Constructing it
  over a valid stream succeeds; the reader then holds exactly the address of that
  stream, it is open, and the stream its read operations act on is that valid stream.
\<close>

theorem reader_construction:
  "(ios_fail (streams a) \<longrightarrow> SBinaryReader_ctor streams a = Inl invalid_argument_exception)
   \<and> (\<not> ios_fail (streams a) \<longrightarrow>
        (\<exists>r. SBinaryReader_ctor streams a = Inr r
             \<and> stream_ptr r = Some a \<and> is_open r
             \<and> reader_stream streams r = Some (streams a)))"
  by (simp add: SBinaryReader_ctor_def is_open_def reader_stream_def)

text \<open>
  Both cases on the two example streams.
\<close>

theorem reader_construction_witness:
  "ios_fail (two_streams 1) \<and> SBinaryReader_ctor two_streams 1 = Inl invalid_argument_exception
   \<and> \<not> ios_fail (two_streams 0)
   \<and> (\<exists>r. SBinaryReader_ctor two_streams 0 = Inr r
           \<and> stream_ptr r = Some 0 \<and> is_open r
           \<and> reader_stream two_streams r = Some (two_streams 0))"
  using reader_construction [of two_streams 1] reader_construction [of two_streams 0]
  by (simp add: two_streams_def ios_fail_def)

subsection \<open>Short reads\<close>

lemma read_le_short: "length (rdbuf s) < n \<Longrightarrow> read_le n s = Inl short_read"
  by (simp add: read_le_def read_bytes_def)

lemma readChars_short: "length (rdbuf s) < count \<Longrightarrow> readChars count s = Inl short_read"
  by (simp add: readChars_def read_bytes_def)

lemma readString_short_body:
  assumes "4 \<le> length (rdbuf s)"
    and "length (rdbuf s) < 4 + unat (le_word (take 4 (rdbuf s)) :: 32 word)"
  shows "readString s = Inl short_read"
proof -
  have "readUInt32 s = Inr (le_word (take 4 (rdbuf s)), s\<lparr>rdbuf := drop 4 (rdbuf s)\<rparr>)"
    using assms(1) by (simp add: readUInt32_def read_le_def read_bytes_def)
  moreover have "length (rdbuf (s\<lparr>rdbuf := drop 4 (rdbuf s)\<rparr>)) < unat (le_word (take 4 (rdbuf s)) :: 32 word)"
    using assms by simp
  ultimately show ?thesis
    by (simp only: readString_def sum.case prod.case readChars_short)
qed

text \<open>
  Claim C5. Every read operation called on a stream that holds fewer bytes than the
  operation needs fails with \<open>short_read\<close>: 1, 2, 4 and 8 bytes for the integers, 4 and 8
  for the floats, \<open>count\<close> for \<open>readChars count\<close>, and for \<open>readString\<close> the 4 bytes of
  the prefix and then as many bytes as the prefix says. The result is the failure alone,
  never a value, and \<open>short_read\<close> is not the overflow exception.
\<close>

theorem short_read_fails:
  "(length (rdbuf s) < 1 \<longrightarrow> readInt8 s = Inl short_read \<and> readUInt8 s = Inl short_read)
   \<and> (length (rdbuf s) < 2 \<longrightarrow> readInt16 s = Inl short_read \<and> readUInt16 s = Inl short_read)
   \<and> (length (rdbuf s) < 4 \<longrightarrow>
        readInt32 s = Inl short_read \<and> readUInt32 s = Inl short_read
        \<and> readSingle s = Inl short_read \<and> readString s = Inl short_read)
   \<and> (length (rdbuf s) < 8 \<longrightarrow>
        readInt64 s = Inl short_read \<and> readUInt64 s = Inl short_read
        \<and> readDouble s = Inl short_read)
   \<and> (length (rdbuf s) < count \<longrightarrow> readChars count s = Inl short_read)
   \<and> (4 \<le> length (rdbuf s)
        \<and> length (rdbuf s) < 4 + unat (le_word (take 4 (rdbuf s)) :: 32 word) \<longrightarrow>
        readString s = Inl short_read)
   \<and> short_read \<noteq> overflow_error_exception"
proof -
  have "length (rdbuf s) < 4 \<Longrightarrow> readString s = Inl short_read"
    by (simp add: readString_def readUInt32_def read_le_short)
  then show ?thesis
    unfolding readInt8_def readInt16_def readInt32_def readInt64_def
      readUInt8_def readUInt16_def readUInt32_def readUInt64_def
      readSingle_def readDouble_def
    by (simp add: read_le_short readChars_short readString_short_body)
qed

text \<open>
  Short streams for each kind of operation; the last one has a prefix of 3 and 2 bytes
  of body.
\<close>

theorem short_read_fails_witness:
  "length (rdbuf (good_stream [])) < 1 \<and> readInt8 (good_stream []) = Inl short_read
   \<and> length (rdbuf (good_stream [1])) < 2 \<and> readUInt16 (good_stream [1]) = Inl short_read
   \<and> length (rdbuf (good_stream [1, 2, 3])) < 4 \<and> readInt32 (good_stream [1, 2, 3]) = Inl short_read
   \<and> readSingle (good_stream [1, 2, 3]) = Inl short_read
   \<and> length (rdbuf (good_stream [1, 2, 3])) < 8 \<and> readDouble (good_stream [1, 2, 3]) = Inl short_read
   \<and> length (rdbuf (good_stream [1, 2, 3])) < 5 \<and> readChars 5 (good_stream [1, 2, 3]) = Inl short_read
   \<and> 4 \<le> length (rdbuf (good_stream [3, 0, 0, 0, 97, 98]))
   \<and> length (rdbuf (good_stream [3, 0, 0, 0, 97, 98]))
        < 4 + unat (le_word (take 4 (rdbuf (good_stream [3, 0, 0, 0, 97, 98]))) :: 32 word)
   \<and> readString (good_stream [3, 0, 0, 0, 97, 98]) = Inl short_read"
  using short_read_fails [of "good_stream []"] short_read_fails [of "good_stream [1]"]
    short_read_fails [of "good_stream [1, 2, 3]" 5]
    short_read_fails [of "good_stream [3, 0, 0, 0, 97, 98]"]
  by (simp add: good_stream_def)

subsection \<open>Round trips\<close>

lemma length_le_bytes [simp]: "length (le_bytes n w) = n"
  by (induction n arbitrary: w) simp_all

lemma le_word_le_bytes: "(le_word (le_bytes n w) :: 'a::len word) = take_bit (8 * n) w"
proof (induction n arbitrary: w)
  case 0
  then show ?case by simp
next
  case (Suc n)
  have "(ucast (ucast w :: byte) :: 'a word) OR push_bit 8 (take_bit (8 * n) (drop_bit 8 w))
        = take_bit (8 * Suc n) w"
    by (rule bit_word_eqI) (auto simp add: bit_simps)
  then show ?case
    by (simp add: Suc)
qed

lemma le_word_le_bytes_full:
  "LENGTH('a) \<le> 8 * n \<Longrightarrow> (le_word (le_bytes n w) :: 'a::len word) = w"
  by (simp add: le_word_le_bytes take_bit_word_eq_self)

lemma read_bytes_append:
  "length bs = n \<Longrightarrow> read_bytes n (s\<lparr>rdbuf := bs @ rest\<rparr>) = Inr (bs, s\<lparr>rdbuf := rest\<rparr>)"
  by (simp add: read_bytes_def)

lemma read_le_le_bytes:
  "LENGTH('a) \<le> 8 * n \<Longrightarrow>
   read_le n (s\<lparr>rdbuf := le_bytes n (w :: 'a::len word) @ rest\<rparr>) = Inr (w, s\<lparr>rdbuf := rest\<rparr>)"
  by (simp add: read_le_def read_bytes_append le_word_le_bytes_full)

text \<open>
  Claim C7. For each of the eight fixed-width integer reads and every value of its type,
  reading a stream that starts with the value's little-endian bytes returns the value
  and leaves the stream just after those bytes. (A signed value is the same word as the
  unsigned one with its bits; \<open>sint\<close> reads it.)
\<close>

theorem integer_round_trip:
  "readInt8 (s\<lparr>rdbuf := le_bytes 1 v8 @ rest\<rparr>) = Inr (v8, s\<lparr>rdbuf := rest\<rparr>)
   \<and> readInt16 (s\<lparr>rdbuf := le_bytes 2 v16 @ rest\<rparr>) = Inr (v16, s\<lparr>rdbuf := rest\<rparr>)
   \<and> readInt32 (s\<lparr>rdbuf := le_bytes 4 v32 @ rest\<rparr>) = Inr (v32, s\<lparr>rdbuf := rest\<rparr>)
   \<and> readInt64 (s\<lparr>rdbuf := le_bytes 8 v64 @ rest\<rparr>) = Inr (v64, s\<lparr>rdbuf := rest\<rparr>)
   \<and> readUInt8 (s\<lparr>rdbuf := le_bytes 1 v8 @ rest\<rparr>) = Inr (v8, s\<lparr>rdbuf := rest\<rparr>)
   \<and> readUInt16 (s\<lparr>rdbuf := le_bytes 2 v16 @ rest\<rparr>) = Inr (v16, s\<lparr>rdbuf := rest\<rparr>)
   \<and> readUInt32 (s\<lparr>rdbuf := le_bytes 4 v32 @ rest\<rparr>) = Inr (v32, s\<lparr>rdbuf := rest\<rparr>)
   \<and> readUInt64 (s\<lparr>rdbuf := le_bytes 8 v64 @ rest\<rparr>) = Inr (v64, s\<lparr>rdbuf := rest\<rparr>)"
proof -
  have r8: "read_le 1 (s\<lparr>rdbuf := le_bytes 1 v8 @ rest\<rparr>) = Inr (v8, s\<lparr>rdbuf := rest\<rparr>)"
    by (rule read_le_le_bytes) simp
  have r16: "read_le 2 (s\<lparr>rdbuf := le_bytes 2 v16 @ rest\<rparr>) = Inr (v16, s\<lparr>rdbuf := rest\<rparr>)"
    by (rule read_le_le_bytes) simp
  have r32: "read_le 4 (s\<lparr>rdbuf := le_bytes 4 v32 @ rest\<rparr>) = Inr (v32, s\<lparr>rdbuf := rest\<rparr>)"
    by (rule read_le_le_bytes) simp
  have r64: "read_le 8 (s\<lparr>rdbuf := le_bytes 8 v64 @ rest\<rparr>) = Inr (v64, s\<lparr>rdbuf := rest\<rparr>)"
    by (rule read_le_le_bytes) simp
  show ?thesis
    unfolding readInt8_def readInt16_def readInt32_def readInt64_def
      readUInt8_def readUInt16_def readUInt32_def readUInt64_def
    using r8 r16 r32 r64 by (intro conjI)
qed

lemma byte_to_char_to_byte [simp]: "byte_to_char (char_to_byte c) = c"
proof -
  have "(of_char c :: nat) < 256"
    by (rule nat_of_char_less_256)
  then have "unat (word_of_nat (of_char c) :: byte) = of_char c"
    by (simp add: unat_of_nat)
  then show ?thesis
    by (simp add: byte_to_char_def char_to_byte_def)
qed

lemma readChars_append:
  "readChars (length t) (s\<lparr>rdbuf := map char_to_byte t @ rest\<rparr>) = Inr (t, s\<lparr>rdbuf := rest\<rparr>)"
  by (simp add: readChars_def read_bytes_append comp_def)

text \<open>
  Claim C6. \<open>readString\<close> reads the 4-byte little-endian length \<open>N\<close> and then exactly
  \<open>N\<close> bytes as text: on a stream that starts with the encoding of a string (whose length
  fits the 32-bit prefix) it returns the string and leaves the stream just after the
  \<open>4 + N\<close> bytes, whatever follows.
\<close>

theorem readString_round_trip:
  assumes "length t < 2 ^ 32"
  shows "readString (s\<lparr>rdbuf := encode_string t @ rest\<rparr>) = Inr (t, s\<lparr>rdbuf := rest\<rparr>)"
proof -
  have n: "unat (word_of_nat (length t) :: 32 word) = length t"
    using assms by (simp add: unat_of_nat)
  have "readUInt32 (s\<lparr>rdbuf := le_bytes 4 (word_of_nat (length t) :: 32 word) @ (map char_to_byte t @ rest)\<rparr>)
        = Inr (word_of_nat (length t), s\<lparr>rdbuf := map char_to_byte t @ rest\<rparr>)"
    unfolding readUInt32_def by (simp add: read_le_le_bytes)
  then show ?thesis
    using readChars_append [where t = t and s = "s\<lparr>rdbuf := map char_to_byte t @ rest\<rparr>" and rest = rest]
    by (simp add: readString_def encode_string_def n)
qed

text \<open>
  Strings of length 0, 1 and 65536.
\<close>

theorem readString_round_trip_witness:
  "length ('''' :: string) < 2 ^ 32
   \<and> readString (good_stream (encode_string '''' @ [7])) = Inr ('''', good_stream [7])
   \<and> length ''a'' < 2 ^ 32
   \<and> readString (good_stream (encode_string ''a'' @ [7])) = Inr (''a'', good_stream [7])
   \<and> length (replicate 65536 CHR ''a'') < 2 ^ 32
   \<and> readString (good_stream (encode_string (replicate 65536 CHR ''a'') @ [7]))
       = Inr (replicate 65536 CHR ''a'', good_stream [7])"
  using readString_round_trip [where t = "''''" and s = "good_stream []" and rest = "[7]"]
    readString_round_trip [where t = "''a''" and s = "good_stream []" and rest = "[7]"]
    readString_round_trip [where t = "replicate 65536 CHR ''a''" and s = "good_stream []" and rest = "[7]"]
  by (simp add: good_stream_def)

section \<open>Properties of the folder tree\<close>

subsection \<open>Construction\<close>

text \<open>
  Claim C10. The constructor is a total function: for every name and every parent
  handle, \<^verbatim>\<open>nullptr\<close> included, it returns a folder. The folder stores the name and the
  parent handle it was given, and its two child maps are empty.
\<close>

theorem SFolder_ctor_fields:
  "name (SFolder_ctor join mem nm parent) = nm
   \<and> parentFolder (SFolder_ctor join mem nm parent) = parent
   \<and> files (SFolder_ctor join mem nm parent) = []
   \<and> subfolders (SFolder_ctor join mem nm parent) = []"
  by (simp add: SFolder_ctor_def Let_def split: option.split)

text \<open>
  Claim C3. A folder constructed with no parent has its name as its path, as it is. A
  folder constructed with a parent has the join of the parent's path and its name.
  With \<open>combine\<close> and the separator \<^verbatim>\<open>/\<close>: the root \<^verbatim>\<open>pkg\<close>, the folder \<^verbatim>\<open>bin\<close>
  under it and the file \<^verbatim>\<open>a.exe\<close> under that have the paths \<^verbatim>\<open>pkg\<close>, \<^verbatim>\<open>pkg/bin\<close> and
  \<^verbatim>\<open>pkg/bin/a.exe\<close>.
\<close>

theorem SFolder_ctor_path:
  "path (SFolder_ctor join mem nm None) = nm
   \<and> path (SFolder_ctor join mem nm (Some p)) = join (path (mem p)) nm
   \<and> (let pkg = SFolder_ctor (combine CHR ''/'') mem ''pkg'' None;
           mem1 = mem(0 := pkg);
           bin = SFolder_ctor (combine CHR ''/'') mem1 ''bin'' (Some 0);
           mem2 = mem1(1 := bin);
           a_exe = SFile_ctor (combine CHR ''/'') mem2 ''a.exe'' (Some 1)
       in path pkg = ''pkg'' \<and> path bin = ''pkg/bin'' \<and> file_path a_exe = ''pkg/bin/a.exe'')"
  by (simp add: SFolder_ctor_def SFile_ctor_def combine_def Let_def)

subsection \<open>Paths of children\<close>

lemma segments_from_sep:
  "segments_from sep cur (xs @ sep # ys) = segments_from sep cur xs @ segments_from sep [] ys"
  by (induction xs arbitrary: cur) simp_all

lemma segments_from_snoc_sep:
  "segments_from sep cur (xs @ [sep]) = segments_from sep cur xs"
  using segments_from_sep [of sep cur xs "[]"] by simp

lemma segments_combine:
  "segments sep (combine sep p n) = segments sep p @ segments sep n"
proof (cases "p = []")
  case True
  then show ?thesis by (simp add: combine_def segments_def)
next
  case False
  show ?thesis
  proof (cases "last p = sep")
    case True
    with False have p: "p = butlast p @ [sep]"
      by (metis append_butlast_last_id)
    have "combine sep p n = butlast p @ sep # n"
      using False True p by (simp add: combine_def)
    then have "segments sep (combine sep p n) = segments_from sep [] (butlast p @ sep # n)"
      by (simp add: segments_def)
    also have "\<dots> = segments_from sep [] (butlast p) @ segments_from sep [] n"
      by (rule segments_from_sep)
    also have "segments_from sep [] (butlast p) = segments sep p"
      using segments_from_snoc_sep [of sep "[]" "butlast p"] p by (simp add: segments_def)
    finally show ?thesis by (simp add: segments_def)
  next
    case False
    with \<open>p \<noteq> []\<close> show ?thesis
      by (simp add: combine_def segments_def segments_from_sep)
  qed
qed

lemma strict_descendant_combine:
  "segments sep n \<noteq> [] \<Longrightarrow> strict_descendant sep (combine sep p n) p"
  by (simp add: strict_descendant_def segments_combine)

section \<open>Properties of the child maps\<close>

lemma lex_less_irrefl [simp]: "\<not> lex_less xs xs"
  by (induction xs) simp_all

lemma lex_less_trans: "lex_less xs ys \<Longrightarrow> lex_less ys zs \<Longrightarrow> lex_less xs zs"
proof (induction xs ys arbitrary: zs rule: lex_less.induct)
  case (4 x xs y ys)
  then show ?case
    by (cases zs) (auto split: if_splits)
qed (auto elim: lex_less.elims)

lemma lex_less_total: "\<not> lex_less xs ys \<Longrightarrow> \<not> lex_less ys xs \<Longrightarrow> xs = ys"
  by (induction xs ys rule: lex_less.induct) (auto split: if_splits)

lemma PathICompareLT_irrefl [simp]: "\<not> PathICompareLT a a"
  by (simp add: PathICompareLT_def)

lemma PathICompareLT_trans: "PathICompareLT a b \<Longrightarrow> PathICompareLT b c \<Longrightarrow> PathICompareLT a c"
  unfolding PathICompareLT_def by (rule lex_less_trans)

lemma same_icase_iff: "same_icase a b \<longleftrightarrow> \<not> PathICompareLT a b \<and> \<not> PathICompareLT b a"
  unfolding same_icase_def PathICompareLT_def
  by (auto dest: lex_less_total)

lemma same_icase_less_left: "same_icase a b \<Longrightarrow> PathICompareLT a c = PathICompareLT b c"
  by (simp add: same_icase_def PathICompareLT_def)

lemma same_icase_less_right: "same_icase a b \<Longrightarrow> PathICompareLT c a = PathICompareLT c b"
  by (simp add: same_icase_def PathICompareLT_def)

lemma map_find_same_icase: "same_icase k k' \<Longrightarrow> map_find k' m = map_find k m"
  by (induction m) (auto simp: same_icase_less_left same_icase_less_right)

lemma map_find_assign: "map_find k (map_assign k v m) = Some v"
  by (induction m) auto

lemma map_find_insert: "map_find k m = None \<Longrightarrow> map_find k (map_insert k v m) = Some v"
  by (induction m) (auto split: if_splits)

lemma keys_map_assign:
  "P k \<Longrightarrow> \<forall>e\<in>set m. P (fst e) \<Longrightarrow> \<forall>e\<in>set (map_assign k v m). P (fst e)"
  by (induction m) (fastforce split: if_splits)+

lemma keys_map_insert:
  "P k \<Longrightarrow> \<forall>e\<in>set m. P (fst e) \<Longrightarrow> \<forall>e\<in>set (map_insert k v m). P (fst e)"
  by (induction m) (fastforce split: if_splits)+

lemma map_ordered_assign: "map_ordered m \<Longrightarrow> map_ordered (map_assign k v m)"
proof (induction m)
  case Nil
  then show ?case by (simp add: map_ordered_def)
next
  case (Cons e m)
  obtain k' v' where e: "e = (k', v')" by (cases e)
  from Cons.prems have tl: "map_ordered m" and hd: "\<forall>x\<in>set (map fst m). PathICompareLT k' x"
    by (simp_all add: map_ordered_def e)
  show ?case
  proof (cases "PathICompareLT k' k")
    case True
    have "\<forall>e\<in>set (map_assign k v m). PathICompareLT k' (fst e)"
      using True hd by (intro keys_map_assign) simp_all
    with Cons.IH [OF tl] True show ?thesis
      by (simp add: map_ordered_def e)
  next
    case False
    show ?thesis
    proof (cases "PathICompareLT k k'")
      case True
      with hd have "\<forall>x\<in>set (map fst m). PathICompareLT k x"
        by (auto intro: PathICompareLT_trans)
      with True False Cons.prems show ?thesis
        by (simp add: map_ordered_def e)
    next
      case nlt: False
      with False Cons.prems show ?thesis
        by (simp add: map_ordered_def e)
    qed
  qed
qed

lemma map_ordered_insert: "map_ordered m \<Longrightarrow> map_ordered (map_insert k v m)"
proof (induction m)
  case Nil
  then show ?case by (simp add: map_ordered_def)
next
  case (Cons e m)
  obtain k' v' where e: "e = (k', v')" by (cases e)
  from Cons.prems have tl: "map_ordered m" and hd: "\<forall>x\<in>set (map fst m). PathICompareLT k' x"
    by (simp_all add: map_ordered_def e)
  show ?case
  proof (cases "PathICompareLT k' k")
    case True
    have "\<forall>e\<in>set (map_insert k v m). PathICompareLT k' (fst e)"
      using True hd by (intro keys_map_insert) simp_all
    with Cons.IH [OF tl] True show ?thesis
      by (simp add: map_ordered_def e)
  next
    case False
    show ?thesis
    proof (cases "PathICompareLT k k'")
      case True
      with hd have "\<forall>x\<in>set (map fst m). PathICompareLT k x"
        by (auto intro: PathICompareLT_trans)
      with True False Cons.prems show ?thesis
        by (simp add: map_ordered_def e)
    next
      case nlt: False
      with False Cons.prems show ?thesis
        by (simp add: map_ordered_def e)
    qed
  qed
qed

lemma map_ordered_unique:
  assumes "map_ordered m" "i < j" "j < length m"
  shows "\<not> same_icase (fst (m ! i)) (fst (m ! j))"
proof -
  have "PathICompareLT (map fst m ! i) (map fst m ! j)"
    using assms by (simp add: map_ordered_def sorted_wrt_iff_nth_less)
  then show ?thesis
    using assms by (simp add: same_icase_iff)
qed

lemma map_ordered_empty: "map_ordered []"
  by (simp add: map_ordered_def)

text \<open>
  Claim C4. In a child map, a child stored under a name is found under every name equal
  to it up to letter case: after \<open>map_assign\<close> always, after \<open>map_insert\<close> when the
  map did not hold the name before; and in any case both names find the same entry. The
  map stays ordered by the case-insensitive comparison, so that iteration follows it, and
  no two of its entries have names equal up to letter case.
\<close>

theorem child_map_case_insensitive:
  assumes "map_ordered m" and "same_icase k k'"
  shows "map_find k' (map_assign k v m) = Some v
       \<and> (map_find k m = None \<longrightarrow> map_find k' (map_insert k v m) = Some v)
       \<and> map_find k' (map_insert k v m) = map_find k (map_insert k v m)
       \<and> map_ordered (map_assign k v m) \<and> map_ordered (map_insert k v m)
       \<and> (\<forall>i j. i < j \<and> j < length (map_assign k v m) \<longrightarrow>
             \<not> same_icase (fst (map_assign k v m ! i)) (fst (map_assign k v m ! j)))
       \<and> (\<forall>i j. i < j \<and> j < length (map_insert k v m) \<longrightarrow>
             \<not> same_icase (fst (map_insert k v m ! i)) (fst (map_insert k v m ! j)))"
proof -
  note same = map_find_same_icase [OF assms(2)]
  have a: "map_ordered (map_assign k v m)"
    using assms(1) by (rule map_ordered_assign)
  have b: "map_ordered (map_insert k v m)"
    using assms(1) by (rule map_ordered_insert)
  show ?thesis
    using a b map_ordered_unique [OF a] map_ordered_unique [OF b]
    by (simp add: same map_find_assign map_find_insert)
qed

text \<open>
  Storing \<^verbatim>\<open>Data\<close> and looking up \<^verbatim>\<open>data\<close>.
\<close>

theorem child_map_case_insensitive_witness:
  "map_ordered two_children \<and> same_icase ''Data'' ''data''
   \<and> map_find ''data'' (map_assign ''Data'' 7 two_children) = Some 7
   \<and> map_find ''Data'' two_children = None
   \<and> map_find ''data'' (map_insert ''Data'' 7 two_children) = Some 7
   \<and> map_insert ''Data'' 7 two_children = [(''bin'', 1), (''Data'', 7), (''ext'', 2)]"
  using child_map_case_insensitive [of two_children "''Data''" "''data''" 7]
  by (simp add: two_children_def map_ordered_def same_icase_def PathICompareLT_def to_lower_def)

section \<open>Properties of shared ownership\<close>

lemma map_insert_new_mem: "map_find k m = None \<Longrightarrow> (k, v) \<in> set (map_insert k v m)"
  by (induction m) (auto split: if_splits)

text \<open>
  Claim C2, amended. A child's handle to its parent owns, like the parent's handles to
  its children. Take a live folder \<open>r\<close> with one handle to it, the last external one,
  and no child named \<open>nm\<close>. Constructing a child under \<open>r\<close> raises the use count of
  \<open>r\<close> to 2. Once the child is in the \<^verbatim>\<open>subfolders\<close> of \<open>r\<close> and the external handles
  to the child and to \<open>r\<close> are dropped, \<open>r\<close> and the child hold each other, a cycle, and
  both keep the use count 1: neither is released. A folder that holds no handle is
  released when its last handle is dropped.
\<close>

theorem parent_handle_owns:
  assumes "r < heap_end h" and "folder_use_count h r = 1"
    and "map_find nm (subfolders (folder_at h r)) = None"
  shows "(let (h1, c) = make_shared_SFolder join h nm (Some r);
              h2 = add_subfolder h1 r nm c;
              h3 = release h2 [FolderPtr c];
              h4 = release h3 [FolderPtr r]
          in folder_use_count h1 r = 2
             \<and> holds h4 r c \<and> holds h4 c r
             \<and> folder_use_count h4 r = 1 \<and> folder_use_count h4 c = 1)
         \<and> (folder_members (folder_at h r) = [] \<longrightarrow>
              folder_use_count (release h [FolderPtr r]) r = 0)"
proof -
  define c where "c = heap_end h"
  have rc: "r \<noteq> c" "c \<noteq> r"
    using assms(1) by (simp_all add: c_def)
  define h1 where "h1 = fst (make_shared_SFolder join h nm (Some r))"
  have mk: "make_shared_SFolder join h nm (Some r) = (h1, c)"
    by (simp add: h1_def c_def make_shared_SFolder_def Let_def)
  have h1: "folder_use_count h1 r = 2" "folder_use_count h1 c = 1" "heap_end h1 = Suc c"
    "folder_at h1 r = folder_at h r"
    "parentFolder (folder_at h1 c) = Some r"
    using rc assms(2) by (simp_all add: h1_def c_def make_shared_SFolder_def Let_def SFolder_ctor_def)
  define h2 where "h2 = add_subfolder h1 r nm c"
  have h2: "folder_use_count h2 r = 2" "folder_use_count h2 c = 2" "heap_end h2 = Suc c"
    "subfolders (folder_at h2 r) = map_insert nm c (subfolders (folder_at h r))"
    "folder_at h2 c = folder_at h1 c"
    using rc h1 assms(3) by (simp_all add: h2_def add_subfolder_def Let_def subfolders_insert_def)
  define h3 where "h3 = release h2 [FolderPtr c]"
  have h3eq: "h3 = h2\<lparr>folder_use_count := (folder_use_count h2)(c := 1)\<rparr>"
    using h2 by (simp add: h3_def)
  define h4 where "h4 = release h3 [FolderPtr r]"
  have h4eq: "h4 = h3\<lparr>folder_use_count := (folder_use_count h3)(r := 1)\<rparr>"
    using h2 rc assms(1) by (simp add: h4_def h3eq c_def)
  have "map_find nm (subfolders (folder_at h4 r)) = Some c"
    using h2 assms(3) by (simp add: h4eq h3eq map_find_insert)
  have in_map: "(nm, c) \<in> set (map_insert nm c (subfolders (folder_at h r)))"
    using assms(3) by (rule map_insert_new_mem)
  have "FolderPtr c \<in> (\<lambda>e. FolderPtr (snd e)) ` set (subfolders (folder_at h2 r))"
    using in_map h2(4) by force
  then have down: "holds h4 r c"
    by (simp add: h4eq h3eq holds_def folder_members_def)
  have up: "holds h4 c r"
    using h1 h2 by (simp add: h4eq h3eq holds_def folder_members_def)
  have first: "folder_use_count h1 r = 2 \<and> holds h4 r c \<and> holds h4 c r
      \<and> folder_use_count h4 r = 1 \<and> folder_use_count h4 c = 1"
    using h1 h2 rc down up by (simp add: h4eq h3eq)
  have second: "folder_members (folder_at h r) = [] \<longrightarrow>
      folder_use_count (release h [FolderPtr r]) r = 0"
    using assms(1,2) by simp
  show ?thesis
    using first [unfolded h4_def h3_def h2_def] second
    by (simp only: mk Let_def prod.case simp_thms)
qed

text \<open>
  The root \<^verbatim>\<open>pkg\<close> alone in the heap: it is released when its handle is dropped, and
  constructing \<^verbatim>\<open>bin\<close> under it raises its use count to 2.
\<close>

theorem parent_handle_owns_witness:
  "(let h = fst (make_shared_SFolder (combine CHR ''/'') empty_heap ''pkg'' None)
    in (0::nat) < heap_end h \<and> folder_use_count h 0 = 1
       \<and> map_find ''bin'' (subfolders (folder_at h 0)) = None
       \<and> folder_members (folder_at h 0) = []
       \<and> folder_use_count (release h [FolderPtr 0]) 0 = 0
       \<and> folder_use_count (fst (make_shared_SFolder (combine CHR ''/'') h ''bin'' (Some 0))) 0 = 2)"
  using parent_handle_owns [of 0 "fst (make_shared_SFolder (combine CHR ''/'') empty_heap ''pkg'' None)"
      "''bin''" "combine CHR ''/''"]
  by (simp add: make_shared_SFolder_def empty_heap_def Let_def SFolder_ctor_def no_folders_def
      folder_members_def split_beta)

text \<open>
  Claim C2 as stated fails on the tree of \<^verbatim>\<open>pkg\<close> and \<^verbatim>\<open>bin\<close>: after the last external
  handle to the root is dropped, the root and its child hold each other and both are
  still allocated.
\<close>

theorem ownership_cycle_counterexample:
  "holds pkg_bin_dropped 0 1 \<and> holds pkg_bin_dropped 1 0
   \<and> folder_use_count pkg_bin_dropped 0 = 1 \<and> folder_use_count pkg_bin_dropped 1 = 1"
  by (simp add: pkg_bin_dropped_def make_shared_SFolder_def empty_heap_def add_subfolder_def Let_def
      SFolder_ctor_def subfolders_insert_def combine_def no_folders_def holds_def folder_members_def)

section \<open>Properties of the tree as it is built\<close>

text \<open>The steps that do not make a node leave every node and the end of the heap as they are.\<close>

lemma release_frame:
  "folder_at (release h hs) = folder_at h \<and> file_at (release h hs) = file_at h
   \<and> heap_end (release h hs) = heap_end h"
  by (induction h hs rule: release.induct) simp_all

lemma retain_frame:
  "folder_at (retain h x) = folder_at h \<and> file_at (retain h x) = file_at h
   \<and> heap_end (retain h x) = heap_end h"
  by (cases x) simp_all

lemma make_shared_SFolder_frame:
  assumes "a < heap_end h"
  shows "folder_at (fst (make_shared_SFolder j h nm parent)) a = folder_at h a"
    and "file_at (fst (make_shared_SFolder j h nm parent)) = file_at h"
    and "heap_end (fst (make_shared_SFolder j h nm parent)) = Suc (heap_end h)"
  using assms
  by (simp_all add: make_shared_SFolder_def Let_def retain_frame split: option.split)

lemma make_shared_SFile_frame:
  assumes "a < heap_end h"
  shows "file_at (fst (make_shared_SFile j h nm parent)) a = file_at h a"
    and "folder_at (fst (make_shared_SFile j h nm parent)) = folder_at h"
    and "heap_end (fst (make_shared_SFile j h nm parent)) = Suc (heap_end h)"
  using assms
  by (simp_all add: make_shared_SFile_def Let_def retain_frame split: option.split)

lemma add_subfolder_frame:
  "path (folder_at (add_subfolder h f k c) a) = path (folder_at h a)"
  "name (folder_at (add_subfolder h f k c) a) = name (folder_at h a)"
  "parentFolder (folder_at (add_subfolder h f k c) a) = parentFolder (folder_at h a)"
  "file_at (add_subfolder h f k c) = file_at h"
  "heap_end (add_subfolder h f k c) = heap_end h"
  by (simp_all add: add_subfolder_def Let_def subfolders_insert_def split: option.split)

lemma add_file_frame:
  "path (folder_at (add_file h f k c) a) = path (folder_at h a)"
  "name (folder_at (add_file h f k c) a) = name (folder_at h a)"
  "parentFolder (folder_at (add_file h f k c) a) = parentFolder (folder_at h a)"
  "file_at (add_file h f k c) = file_at h"
  "heap_end (add_file h f k c) = heap_end h"
  by (simp_all add: add_file_def Let_def files_insert_def split: option.split)

text \<open>No step changes the path of a node made before it.\<close>

lemma apply_op_frame:
  assumes "a < heap_end h"
  shows "path (folder_at (apply_op j h x) a) = path (folder_at h a)
       \<and> file_path (file_at (apply_op j h x) a) = file_path (file_at h a)
       \<and> a < heap_end (apply_op j h x)"
  using assms
  by (cases x)
    (simp_all add: make_shared_SFolder_frame make_shared_SFile_frame add_subfolder_frame
      add_file_frame retain_frame release_frame)

lemma run_ops_frame:
  assumes "a < heap_end h"
  shows "path (folder_at (run_ops j h xs) a) = path (folder_at h a)
       \<and> file_path (file_at (run_ops j h xs) a) = file_path (file_at h a)"
  using assms
proof (induction xs arbitrary: h)
  case Nil
  then show ?case by simp
next
  case (Cons x xs)
  from apply_op_frame [OF Cons.prems, of j x]
  have step: "path (folder_at (apply_op j h x) a) = path (folder_at h a)"
      "file_path (file_at (apply_op j h x) a) = file_path (file_at h a)"
      "a < heap_end (apply_op j h x)"
    by simp_all
  from Cons.IH [OF step(3)] step(1,2) show ?case
    by simp
qed

text \<open>The invariant holds of the empty heap and every well-formed step keeps it.\<close>

lemma paths_ok_empty_heap: "paths_ok sep empty_heap"
  by (simp add: paths_ok_def empty_heap_def no_folders_def)

lemma paths_ok_same_nodes:
  assumes "paths_ok sep h"
    and "heap_end h' = heap_end h"
    and "\<And>a. path (folder_at h' a) = path (folder_at h a)"
    and "\<And>a. name (folder_at h' a) = name (folder_at h a)"
    and "\<And>a. parentFolder (folder_at h' a) = parentFolder (folder_at h a)"
    and "file_at h' = file_at h"
  shows "paths_ok sep h'"
  using assms by (simp add: paths_ok_def)

lemma paths_ok_MakeFolder:
  assumes "paths_ok sep h" and "op_ok h (MakeFolder nm parent)"
  shows "paths_ok sep (fst (make_shared_SFolder (combine sep) h nm parent))"
proof -
  let ?a = "heap_end h"
  let ?h1 = "case parent of None \<Rightarrow> h | Some p \<Rightarrow> retain h (FolderPtr p)"
  let ?obj = "SFolder_ctor (combine sep) (folder_at h) nm parent"
  let ?h' = "fst (make_shared_SFolder (combine sep) h nm parent)"
  have h1: "folder_at ?h1 = folder_at h" "file_at ?h1 = file_at h"
    by (simp_all split: option.split)
  have fa: "folder_at ?h' = (folder_at h)(?a := ?obj)"
    and fl: "file_at ?h' = file_at h" and he: "heap_end ?h' = Suc ?a"
    using h1 by (simp_all add: make_shared_SFolder_def Let_def)
  have old: "\<And>p. p < ?a \<Longrightarrow> folder_at ?h' p = folder_at h p"
    by (simp add: fa)
  have new: "parentFolder ?obj = parent" "name ?obj = nm"
    "\<And>p. parent = Some p \<Longrightarrow> path ?obj = combine sep (path (folder_at h p)) nm"
    by (simp_all add: SFolder_ctor_def Let_def split: option.split)
  have folders: "p < heap_end ?h'
      \<and> path (folder_at ?h' c) = combine sep (path (folder_at ?h' p)) (name (folder_at ?h' c))"
    if par: "parentFolder (folder_at ?h' c) = Some p" for c p
  proof (cases "c = ?a")
    case True
    with par have pp: "parent = Some p"
      by (simp add: fa new)
    with assms(2) have lt: "p < ?a" by simp
    have "folder_at ?h' c = ?obj"
      using True by (simp add: fa)
    moreover have "folder_at ?h' p = folder_at h p"
      using lt by (rule old)
    moreover have "path ?obj = combine sep (path (folder_at h p)) nm"
      using pp by (rule new(3))
    ultimately show ?thesis
      using lt new(2) he by simp
  next
    case False
    with par have "parentFolder (folder_at h c) = Some p"
      by (simp add: fa)
    with assms(1) have "p < ?a"
      and "path (folder_at h c) = combine sep (path (folder_at h p)) (name (folder_at h c))"
      by (simp_all add: paths_ok_def)
    with False show ?thesis
      by (simp add: he old) (simp add: fa)
  qed
  have filesok: "p < heap_end ?h'
      \<and> file_path (file_at ?h' c) = combine sep (path (folder_at ?h' p)) (file_name (file_at ?h' c))"
    if par: "file_parentFolder (file_at ?h' c) = Some p" for c p
  proof -
    from par have "file_parentFolder (file_at h c) = Some p"
      by (simp add: fl)
    with assms(1) have "p < ?a"
      and "file_path (file_at h c) = combine sep (path (folder_at h p)) (file_name (file_at h c))"
      by (simp_all add: paths_ok_def)
    then show ?thesis
      by (simp add: he old fl)
  qed
  show ?thesis
    unfolding paths_ok_def using folders filesok by blast
qed

lemma paths_ok_MakeFile:
  assumes "paths_ok sep h" and "op_ok h (MakeFile nm parent)"
  shows "paths_ok sep (fst (make_shared_SFile (combine sep) h nm parent))"
proof -
  let ?a = "heap_end h"
  let ?h1 = "case parent of None \<Rightarrow> h | Some p \<Rightarrow> retain h (FolderPtr p)"
  let ?obj = "SFile_ctor (combine sep) (folder_at h) nm parent"
  let ?h' = "fst (make_shared_SFile (combine sep) h nm parent)"
  have h1: "folder_at ?h1 = folder_at h" "file_at ?h1 = file_at h"
    by (simp_all split: option.split)
  have fl: "file_at ?h' = (file_at h)(?a := ?obj)"
    and fa: "folder_at ?h' = folder_at h" and he: "heap_end ?h' = Suc ?a"
    using h1 by (simp_all add: make_shared_SFile_def Let_def)
  have new: "file_parentFolder ?obj = parent" "file_name ?obj = nm"
    "\<And>p. parent = Some p \<Longrightarrow> file_path ?obj = combine sep (path (folder_at h p)) nm"
    by (simp_all add: SFile_ctor_def Let_def split: option.split)
  have folders: "p < heap_end ?h'
      \<and> path (folder_at ?h' c) = combine sep (path (folder_at ?h' p)) (name (folder_at ?h' c))"
    if par: "parentFolder (folder_at ?h' c) = Some p" for c p
  proof -
    from par have "parentFolder (folder_at h c) = Some p"
      by (simp add: fa)
    with assms(1) have "p < ?a"
      and "path (folder_at h c) = combine sep (path (folder_at h p)) (name (folder_at h c))"
      by (simp_all add: paths_ok_def)
    then show ?thesis
      by (simp add: he fa)
  qed
  have filesok: "p < heap_end ?h'
      \<and> file_path (file_at ?h' c) = combine sep (path (folder_at ?h' p)) (file_name (file_at ?h' c))"
    if par: "file_parentFolder (file_at ?h' c) = Some p" for c p
  proof (cases "c = ?a")
    case True
    with par have pp: "parent = Some p"
      by (simp add: fl new)
    with assms(2) have lt: "p < ?a" by simp
    have "file_at ?h' c = ?obj"
      using True by (simp add: fl)
    moreover have "file_path ?obj = combine sep (path (folder_at h p)) nm"
      using pp by (rule new(3))
    ultimately show ?thesis
      using lt new(2) he fa by simp
  next
    case False
    with par have "file_parentFolder (file_at h c) = Some p"
      by (simp add: fl)
    with assms(1) have "p < ?a"
      and "file_path (file_at h c) = combine sep (path (folder_at h p)) (file_name (file_at h c))"
      by (simp_all add: paths_ok_def)
    with False show ?thesis
      by (simp add: he fa) (simp add: fl)
  qed
  show ?thesis
    unfolding paths_ok_def using folders filesok by blast
qed

lemma paths_ok_apply_op:
  assumes "paths_ok sep h" and "op_ok h x"
  shows "paths_ok sep (apply_op (combine sep) h x)"
proof (cases x)
  case (MakeFolder nm parent)
  with assms show ?thesis by (simp only: apply_op.simps paths_ok_MakeFolder)
next
  case (MakeFile nm parent)
  with assms show ?thesis by (simp only: apply_op.simps paths_ok_MakeFile)
next
  case (AddSubfolder f k c)
  show ?thesis
    unfolding AddSubfolder apply_op.simps
    by (rule paths_ok_same_nodes [OF assms(1)]) (simp_all add: add_subfolder_frame)
next
  case (AddFile f k c)
  show ?thesis
    unfolding AddFile apply_op.simps
    by (rule paths_ok_same_nodes [OF assms(1)]) (simp_all add: add_file_frame)
next
  case (CopyHandle y)
  show ?thesis
    unfolding CopyHandle apply_op.simps
    by (rule paths_ok_same_nodes [OF assms(1)]) (simp_all add: retain_frame)
next
  case (DropHandle y)
  show ?thesis
    unfolding DropHandle apply_op.simps
    by (rule paths_ok_same_nodes [OF assms(1)]) (simp_all add: release_frame)
qed

lemma paths_ok_run_ops:
  "paths_ok sep h \<Longrightarrow> ops_ok (combine sep) h xs \<Longrightarrow> paths_ok sep (run_ops (combine sep) h xs)"
  by (induction xs arbitrary: h) (simp_all add: paths_ok_apply_op)

text \<open>
  Claim C8, amended. Take the heap that any well-formed program builds from the empty
  heap. For every folder and every child node placed under it, that is an entry of its
  \<^verbatim>\<open>subfolders\<close> or \<^verbatim>\<open>files\<close> map, that was constructed with that folder as its parent
  under a name with at least one segment, the child's path is a strict descendant of the
  folder's own path. And a node's path never changes after construction: whatever the
  program does later, every node made so far, folder or file, keeps its path.
\<close>

theorem node_paths:
  assumes "ops_ok (combine sep) empty_heap ops"
  shows "(let h = run_ops (combine sep) empty_heap ops
          in ((k, c) \<in> set (subfolders (folder_at h f))
                \<and> parentFolder (folder_at h c) = Some f
                \<and> segments sep (name (folder_at h c)) \<noteq> [] \<longrightarrow>
              strict_descendant sep (path (folder_at h c)) (path (folder_at h f)))
           \<and> ((kf, d) \<in> set (files (folder_at h g))
                \<and> file_parentFolder (file_at h d) = Some g
                \<and> segments sep (file_name (file_at h d)) \<noteq> [] \<longrightarrow>
              strict_descendant sep (file_path (file_at h d)) (path (folder_at h g)))
           \<and> (a < heap_end h \<longrightarrow>
              path (folder_at (run_ops (combine sep) h later) a) = path (folder_at h a)
              \<and> file_path (file_at (run_ops (combine sep) h later) a) = file_path (file_at h a)))"
proof -
  define h where "h = run_ops (combine sep) empty_heap ops"
  have inv: "paths_ok sep h"
    unfolding h_def using paths_ok_empty_heap assms by (rule paths_ok_run_ops)
  have folder_child: "strict_descendant sep (path (folder_at h c)) (path (folder_at h f))"
    if "parentFolder (folder_at h c) = Some f" and "segments sep (name (folder_at h c)) \<noteq> []"
  proof -
    from inv that(1)
    have "path (folder_at h c) = combine sep (path (folder_at h f)) (name (folder_at h c))"
      by (simp add: paths_ok_def)
    with that(2) show ?thesis
      by (simp add: strict_descendant_combine)
  qed
  have file_child: "strict_descendant sep (file_path (file_at h d)) (path (folder_at h g))"
    if "file_parentFolder (file_at h d) = Some g" and "segments sep (file_name (file_at h d)) \<noteq> []"
  proof -
    from inv that(1)
    have "file_path (file_at h d) = combine sep (path (folder_at h g)) (file_name (file_at h d))"
      by (simp add: paths_ok_def)
    with that(2) show ?thesis
      by (simp add: strict_descendant_combine)
  qed
  have fixed: "path (folder_at (run_ops (combine sep) h later) a) = path (folder_at h a)
      \<and> file_path (file_at (run_ops (combine sep) h later) a) = file_path (file_at h a)"
    if "a < heap_end h"
    using that by (rule run_ops_frame)
  show ?thesis
    unfolding Let_def h_def [symmetric]
    using folder_child file_child fixed by blast
qed

text \<open>
  The definitions a concrete program unfolds to.
\<close>

lemmas tree_defs = make_shared_SFolder_def make_shared_SFile_def empty_heap_def add_subfolder_def
  add_file_def Let_def SFolder_ctor_def SFile_ctor_def subfolders_insert_def files_insert_def
  combine_def no_folders_def

text \<open>
  The tree of \<^verbatim>\<open>pkg\<close>, \<^verbatim>\<open>bin\<close> and \<^verbatim>\<open>a.exe\<close>: both children descend from their folders,
  and dropping a handle afterwards leaves the path of \<^verbatim>\<open>bin\<close> as it was.
\<close>

theorem node_paths_witness:
  "ops_ok (combine CHR ''/'') empty_heap pkg_tree_ops
   \<and> (let h = run_ops (combine CHR ''/'') empty_heap pkg_tree_ops
       in (''bin'', 1) \<in> set (subfolders (folder_at h 0))
          \<and> parentFolder (folder_at h 1) = Some 0
          \<and> segments CHR ''/'' (name (folder_at h 1)) \<noteq> []
          \<and> strict_descendant CHR ''/'' (path (folder_at h 1)) (path (folder_at h 0))
          \<and> (''a.exe'', 2) \<in> set (files (folder_at h 1))
          \<and> file_parentFolder (file_at h 2) = Some 1
          \<and> segments CHR ''/'' (file_name (file_at h 2)) \<noteq> []
          \<and> strict_descendant CHR ''/'' (file_path (file_at h 2)) (path (folder_at h 1))
          \<and> 1 < heap_end h
          \<and> path (folder_at (run_ops (combine CHR ''/'') h [DropHandle (FolderPtr 1)]) 1)
              = path (folder_at h 1))"
  using node_paths [where sep = "CHR ''/''" and ops = pkg_tree_ops and k = "''bin''" and c = 1
      and f = 0 and kf = "''a.exe''" and d = 2 and g = 1 and a = 1
      and later = "[DropHandle (FolderPtr 1)]"]
  by (simp add: pkg_tree_ops_def tree_defs segments_def)

text \<open>
  Claim C8 as stated fails twice, each time on a well-formed program. A folder made
  with no parent and stored in the \<^verbatim>\<open>subfolders\<close> of \<^verbatim>\<open>pkg\<close> is a child placed under
  \<^verbatim>\<open>pkg\<close> whose path is \<^verbatim>\<open>bin\<close>: the constructor and the map alone decide this. A
  folder constructed under \<^verbatim>\<open>pkg\<close> with the empty name and stored there has the path
  \<^verbatim>\<open>pkg/\<close>, which has the segments of \<^verbatim>\<open>pkg\<close> and no more.
\<close>

theorem stray_child_counterexample:
  "ops_ok (combine CHR ''/'') empty_heap stray_child_ops
   \<and> (''bin'', 1) \<in> set (subfolders (folder_at stray_child_heap 0))
   \<and> \<not> strict_descendant CHR ''/'' (path (folder_at stray_child_heap 1))
        (path (folder_at stray_child_heap 0))
   \<and> ops_ok (combine CHR ''/'') empty_heap nameless_child_ops
   \<and> ([], 1) \<in> set (subfolders (folder_at nameless_child_heap 0))
   \<and> parentFolder (folder_at nameless_child_heap 1) = Some 0
   \<and> \<not> strict_descendant CHR ''/'' (path (folder_at nameless_child_heap 1))
        (path (folder_at nameless_child_heap 0))"
  by (simp add: stray_child_heap_def stray_child_ops_def nameless_child_heap_def
      nameless_child_ops_def tree_defs strict_descendant_def segments_def)

end
